theory Spec2Isabelle
  imports Main "HOL-Library.Word"
begin

section \<open>Host values, engine statuses and faults\<close>

text \<open>
  The binding in \<^verbatim>\<open>src/napi/leveldown.cc\<close> moves values between the host runtime and
  the storage engine. A host value (\<^verbatim>\<open>napi_value\<close>) is modelled by the cases the binding
  tells apart; numbers are the integral ones, strings and buffers are byte sequences.
  An error value has a code, which may be absent, and a message, as \<^verbatim>\<open>napi_create_error\<close>
  takes them.
\<close>

datatype napi_value =
    JSUndefined
  | JSNull
  | JSBoolean bool
  | JSNumber int
  | JSString string
  | JSBuffer string
  | JSError "string option" string
  | JSArray "napi_value list"

text \<open>A completion callback is a host function; only its identity matters here.\<close>

type_synonym callback = nat

text \<open>
  \<^verbatim>\<open>leveldb::Status\<close>: a code and a message. The binding only asks \<^verbatim>\<open>ok()\<close> and
  \<^verbatim>\<open>ToString()\<close>; the rendering \<^verbatim>\<open>ToString\<close> belongs to the engine and is a parameter
  of everything below that uses it.
\<close>

datatype StatusCode = kOk | kNotFound | kCorruption | kNotSupported | kInvalidArgument | kIOError

record Status =
  code :: StatusCode
  msg :: string

definition Status_OK :: Status where
  "Status_OK = \<lparr>code = kOk, msg = []\<rparr>"

definition ok :: "Status \<Rightarrow> bool" where
  "ok s = (code s = kOk)"


text \<open>
  Behaviour the C++ leaves undefined is a value of the model: stepping an engine iterator
  that is not valid, overflowing the signed entry counter, reading the error message
  while it is still \<^verbatim>\<open>NULL\<close>, returning a local that \<^verbatim>\<open>napi_get_value_*\<close> did not write.
\<close>

datatype fault = InvalidIterator | SignedOverflow | NullErrMsg | UninitializedRead

section \<open>BaseWorker\<close>

record BaseWorker =
  status :: Status
  errMsg :: "string option"

text \<open>
  A text read as a C string ends before its first NUL byte: \<^verbatim>\<open>c_str()\<close> followed by
  \<^verbatim>\<open>strlen\<close>. \<^verbatim>\<open>SetErrorMessage\<close> copies \<^verbatim>\<open>strlen(msg) + 1\<close> bytes, so it keeps that much
  of the text it is given.
\<close>

definition c_str :: "string \<Rightarrow> string" where
  "c_str m = takeWhile (\<lambda>c. c \<noteq> CHR 0x00) m"

definition SetErrorMessage :: "string \<Rightarrow> 'a BaseWorker_scheme \<Rightarrow> 'a BaseWorker_scheme" where
  "SetErrorMessage m w = w\<lparr>errMsg := Some (c_str m)\<rparr>"

definition SetStatus ::
  "(Status \<Rightarrow> string) \<Rightarrow> Status \<Rightarrow> 'a BaseWorker_scheme \<Rightarrow> 'a BaseWorker_scheme" where
  "SetStatus ToString s w =
     (let w' = w\<lparr>status := s\<rparr>
      in if \<not> ok s then SetErrorMessage (ToString s) w' else w')"

text \<open>
  \<^verbatim>\<open>DoComplete\<close>: the virtual \<^verbatim>\<open>HandleOKCallback\<close> is the first argument; it may change
  main-thread state \<open>'s\<close> and yields the arguments the host callback is called with.
  On a status that is not ok the callback gets one error made from \<^verbatim>\<open>errMsg_\<close>, read
  with \<^verbatim>\<open>strlen\<close> again, with no code (\<^verbatim>\<open>napi_create_error(env_, NULL, msg, ...)\<close>),
  and nothing else happens. A host string is kept as the bytes of its UTF-8 form.
\<close>

definition DoComplete ::
  "('s \<Rightarrow> napi_value list \<times> 's) \<Rightarrow> 'a BaseWorker_scheme \<Rightarrow> 's \<Rightarrow> fault + (napi_value list \<times> 's)" where
  "DoComplete HandleOKCallback w s =
     (if ok (status w) then Inr (HandleOKCallback s)
      else (case errMsg w of
              None \<Rightarrow> Inl NullErrMsg
            | Some m \<Rightarrow> Inr ([JSError None (c_str m)], s)))"

text \<open>The default \<^verbatim>\<open>BaseWorker::HandleOKCallback\<close> calls back with null.\<close>

definition HandleOKCallback :: "'s \<Rightarrow> napi_value list \<times> 's" where
  "HandleOKCallback s = ([JSNull], s)"

section \<open>GetWorker\<close>






section \<open>Queued work and the Database\<close>

text \<open>
  \<^verbatim>\<open>Queue()\<close> hands a worker to the host's work queue. The queue is the list of the
  workers handed over, oldest first. A worker that belongs to an iterator names it by
  the iterator's id.
\<close>

datatype async_work =
    CloseWork callback
  | EndWork "32 word" callback
  | NextWork "32 word" callback

text \<open>
  Of \<^verbatim>\<open>struct Database\<close>: the id counter, the pending close worker and the registry
  \<^verbatim>\<open>iterators_\<close>. The binding only inserts into the registry, erases from it and asks
  whether it is empty, so the registry is the set of its keys.
\<close>

record Database =
  currentIteratorId :: "32 word"
  pendingCloseWorker :: "async_work option"
  iterators :: "32 word set"

definition new_Database :: Database where
  "new_Database = \<lparr>currentIteratorId = 0, pendingCloseWorker = None, iterators = {}\<rparr>"

definition ReleaseIterator ::
  "32 word \<Rightarrow> Database \<times> async_work list \<Rightarrow> Database \<times> async_work list" where
  "ReleaseIterator i dq =
     (let d = (fst dq)\<lparr>iterators := iterators (fst dq) - {i}\<rparr>
      in case pendingCloseWorker d of
           Some w \<Rightarrow>
             if iterators d = {} then (d\<lparr>pendingCloseWorker := None\<rparr>, snd dq @ [w])
             else (d, snd dq)
         | None \<Rightarrow> (d, snd dq))"

text \<open>
  \<^verbatim>\<open>db_close\<close>: a new CloseWorker is made and queued. The function reads neither the
  registry nor \<^verbatim>\<open>pendingCloseWorker_\<close>.
\<close>

definition db_close ::
  "callback \<Rightarrow> Database \<times> async_work list \<Rightarrow> Database \<times> async_work list" where
  "db_close cb dq = (fst dq, snd dq @ [CloseWork cb])"

section \<open>The engine iterator\<close>

text \<open>
  Modelled from the spec: the ordered key-value engine (\<^verbatim>\<open>leveldb::Iterator\<close>) is an
  external collaborator and not part of the source. A snapshot is the list of its
  entries in key order; a position is an index into it, or \<open>None\<close> when the iterator
  is not valid. Seek lands at the first key that is not below the target; Next and Prev
  move one position and need a valid iterator.
\<close>

type_synonym snapshot = "(string \<times> string) list"

text \<open>
  \<^verbatim>\<open>std::string::compare\<close> and \<^verbatim>\<open>leveldb::Slice::compare\<close>: bytewise lexicographic
  order; the binding only uses the sign.
\<close>

fun compare :: "string \<Rightarrow> string \<Rightarrow> int" where
  "compare [] [] = 0"
| "compare [] (y # ys) = - 1"
| "compare (x # xs) [] = 1"
| "compare (x # xs) (y # ys) =
     (if (of_char x :: nat) < of_char y then - 1
      else if (of_char y :: nat) < of_char x then 1
      else compare xs ys)"

definition Valid :: "snapshot \<Rightarrow> nat option \<Rightarrow> bool" where
  "Valid kvs p = (case p of None \<Rightarrow> False | Some i \<Rightarrow> i < length kvs)"

definition SeekToFirst :: "snapshot \<Rightarrow> nat option" where
  "SeekToFirst kvs = (if kvs = [] then None else Some 0)"

definition SeekToLast :: "snapshot \<Rightarrow> nat option" where
  "SeekToLast kvs = (if kvs = [] then None else Some (length kvs - 1))"

definition Seek :: "snapshot \<Rightarrow> string \<Rightarrow> nat option" where
  "Seek kvs t =
     (let i = length (takeWhile (\<lambda>kv. compare (fst kv) t < 0) kvs)
      in if i < length kvs then Some i else None)"

definition Next :: "snapshot \<Rightarrow> nat \<Rightarrow> nat option" where
  "Next kvs i = (if Suc i < length kvs then Some (Suc i) else None)"

definition Prev :: "snapshot \<Rightarrow> nat \<Rightarrow> nat option" where
  "Prev kvs i = (if i = 0 then None else Some (i - 1))"

section \<open>Iterator\<close>

text \<open>
  \<^verbatim>\<open>struct Iterator\<close>. A pointer that may be \<^verbatim>\<open>NULL\<close> is an option. \<open>dbIterator\<close> is
  \<open>None\<close> until the engine iterator is made, then \<open>Some p\<close> with \<open>p\<close> its position.
  \<open>snapshot_it\<close> is what \<^verbatim>\<open>options_->snapshot\<close> shows.
\<close>

record Iterator =
  id_it :: "32 word"
  start :: "string option"
  end_it :: "string option"
  reverse :: bool
  keys :: bool
  values_it :: bool
  limit :: int
  lt :: "string option"
  lte :: "string option"
  gt :: "string option"
  gte :: "string option"
  fillCache :: bool
  keyAsBuffer :: bool
  valueAsBuffer :: bool
  highWaterMark :: "32 word"
  dbIterator :: "nat option option"
  count :: int
  target :: "string option"
  seeking :: bool
  landed :: bool
  nexting :: bool
  ended :: bool
  endWorker :: "async_work option"
  snapshot_it :: snapshot

definition key_at :: "snapshot \<Rightarrow> nat \<Rightarrow> string" where
  "key_at kvs i = fst (kvs ! i)"

definition value_at :: "snapshot \<Rightarrow> nat \<Rightarrow> string" where
  "value_at kvs i = snd (kvs ! i)"

definition ReleaseTarget :: "Iterator \<Rightarrow> Iterator" where
  "ReleaseTarget it = it\<lparr>target := None\<rparr>"

text \<open>
  \<^verbatim>\<open>GetIterator\<close>: on the first call the engine iterator is made and positioned, and the
  result is true; later calls change nothing and yield false. Every \<^verbatim>\<open>key()\<close> and every
  step in it is behind a \<^verbatim>\<open>Valid()\<close> test, as in the source. \<open>reverse_correct\<close> is the
  chain of tests on the key a reversed seek landed on, \<open>initial_position\<close> the whole
  positioning.
\<close>

definition reverse_correct :: "Iterator \<Rightarrow> string \<Rightarrow> nat \<Rightarrow> nat option" where
  "reverse_correct it s i =
     (let kvs = snapshot_it it; keyStr = key_at kvs i
      in case lt it of
           Some l \<Rightarrow> if compare l keyStr \<le> 0 then Prev kvs i else Some i
         | None \<Rightarrow>
             (case lte it of
                Some l \<Rightarrow> if compare l keyStr < 0 then Prev kvs i else Some i
              | None \<Rightarrow> if compare s keyStr \<noteq> 0 then Prev kvs i else Some i))"

definition initial_position :: "Iterator \<Rightarrow> nat option" where
  "initial_position it =
     (let kvs = snapshot_it it
      in case start it of
           Some s \<Rightarrow>
             (let p0 = Seek kvs s
              in if reverse it then
                   (let p1 = (case p0 of
                                Some i \<Rightarrow>
                                  if Valid kvs p0 then reverse_correct it s i
                                  else SeekToLast kvs
                              | None \<Rightarrow> SeekToLast kvs)
                    in case (p1, lt it) of
                         (Some j, Some l) \<Rightarrow>
                           if Valid kvs p1 \<and> compare l (key_at kvs j) \<le> 0
                           then Prev kvs j else p1
                       | _ \<Rightarrow> p1)
                 else
                   (case (p0, gt it) of
                      (Some i, Some g) \<Rightarrow>
                        if Valid kvs p0 \<and> compare g (key_at kvs i) = 0
                        then Next kvs i else p0
                    | _ \<Rightarrow> p0))
         | None \<Rightarrow> if reverse it then SeekToLast kvs else SeekToFirst kvs)"

definition GetIterator :: "Iterator \<Rightarrow> bool \<times> Iterator" where
  "GetIterator it =
     (case dbIterator it of
        Some p \<Rightarrow> (False, it)
      | None \<Rightarrow> (True, it\<lparr>dbIterator := Some (initial_position it)\<rparr>))"

text \<open>
  The range part of the test in \<^verbatim>\<open>Read\<close>: the \<^verbatim>\<open>end\<close> bound in the scan direction, then
  \<^verbatim>\<open>lt\<close> before \<^verbatim>\<open>lte\<close>, then \<^verbatim>\<open>gt\<close> before \<^verbatim>\<open>gte\<close>.
\<close>

definition in_range :: "Iterator \<Rightarrow> string \<Rightarrow> bool" where
  "in_range it keyStr =
     (let isEnd = (case end_it it of None \<Rightarrow> 1 | Some e \<Rightarrow> compare e keyStr)
      in (end_it it = None \<or> (reverse it \<and> isEnd \<le> 0) \<or> (\<not> reverse it \<and> isEnd \<ge> 0))
         \<and> (case lt it of
              Some l \<Rightarrow> compare l keyStr > 0
            | None \<Rightarrow> (case lte it of Some l \<Rightarrow> compare l keyStr \<ge> 0 | None \<Rightarrow> True))
         \<and> (case gt it of
              Some g \<Rightarrow> compare g keyStr < 0
            | None \<Rightarrow> (case gte it of Some g \<Rightarrow> compare g keyStr \<le> 0 | None \<Rightarrow> True)))"

text \<open>
  The step at the head of \<^verbatim>\<open>Read\<close>: \<^verbatim>\<open>Prev\<close> or \<^verbatim>\<open>Next\<close> with no \<^verbatim>\<open>Valid()\<close> test
  before it, which the engine does not define on an iterator that is not valid.
\<close>

definition step :: "Iterator \<Rightarrow> fault + Iterator" where
  "step it =
     (case dbIterator it of
        Some (Some i) \<Rightarrow>
          if Valid (snapshot_it it) (Some i)
          then Inr (it\<lparr>dbIterator :=
                 Some (if reverse it then Prev (snapshot_it it) i else Next (snapshot_it it) i)\<rparr>)
          else Inl InvalidIterator
      | _ \<Rightarrow> Inl InvalidIterator)"

text \<open>
  \<^verbatim>\<open>limit_ < 0 || ++count_ <= limit_\<close>: the counter goes up exactly when the limit is
  not negative; \<^verbatim>\<open>count_\<close> is an \<^verbatim>\<open>int\<close>, so going past \<open>2^31 - 1\<close> is undefined.
\<close>

definition count_entry :: "Iterator \<Rightarrow> fault + (bool \<times> Iterator)" where
  "count_entry it =
     (if limit it < 0 then Inr (True, it)
      else if count it \<ge> 2147483647 then Inl SignedOverflow
      else Inr (count it + 1 \<le> limit it, it\<lparr>count := count it + 1\<rparr>))"

text \<open>
  \<^verbatim>\<open>Read\<close> in two parts. The head of it moves the engine iterator: nothing on the call
  that makes it, nothing while \<^verbatim>\<open>seeking_\<close> is set, one step otherwise; then it clears
  \<^verbatim>\<open>seeking_\<close>.
\<close>

definition Read_move :: "Iterator \<Rightarrow> fault + Iterator" where
  "Read_move it0 =
     (let (made, it1) = GetIterator it0
      in case (if \<not> made \<and> \<not> seeking it1 then step it1 else Inr it1) of
           Inl f \<Rightarrow> Inl f
         | Inr it2 \<Rightarrow> Inr (it2\<lparr>seeking := False\<rparr>))"

text \<open>
  The rest of it looks at the entry under the engine iterator, if there is one: the
  limit first, then the range; an entry that passes is handed out, its key and its
  value each only if asked for.
\<close>

definition Read_entry :: "Iterator \<Rightarrow> fault + (bool \<times> string \<times> string \<times> Iterator)" where
  "Read_entry it3 =
     (let kvs = snapshot_it it3
      in case dbIterator it3 of
           Some (Some i) \<Rightarrow>
             if Valid kvs (Some i) then
               (case count_entry it3 of
                  Inl f \<Rightarrow> Inl f
                | Inr (within, it4) \<Rightarrow>
                    if within \<and> in_range it4 (key_at kvs i)
                    then Inr (True,
                              if keys it4 then key_at kvs i else [],
                              if values_it it4 then value_at kvs i else [],
                              it4)
                    else Inr (False, [], [], it4))
             else Inr (False, [], [], it3)
         | _ \<Rightarrow> Inr (False, [], [], it3))"

text \<open>
  \<^verbatim>\<open>Read\<close> yields whether an entry was read, the key and the value and the iterator
  after it.
\<close>

definition Read :: "Iterator \<Rightarrow> fault + (bool \<times> string \<times> string \<times> Iterator)" where
  "Read it0 = (case Read_move it0 of Inl f \<Rightarrow> Inl f | Inr it3 \<Rightarrow> Read_entry it3)"

text \<open>
  The measure of the loop in \<^verbatim>\<open>IteratorNext\<close>: the entries still ahead in the scan
  direction, counted twice, plus one while \<^verbatim>\<open>seeking_\<close> holds the next step back.
\<close>

definition ahead :: "Iterator \<Rightarrow> nat" where
  "ahead it =
     (case dbIterator it of
        None \<Rightarrow> 2 * length (snapshot_it it) + 3
      | Some None \<Rightarrow> 0
      | Some (Some i) \<Rightarrow>
          2 * (if reverse it then Suc i else length (snapshot_it it) - i)
          + (if seeking it then 1 else 0))"

lemma step_result:
  "step it = Inr it' \<Longrightarrow>
     \<exists>i. dbIterator it = Some (Some i) \<and> i < length (snapshot_it it)
       \<and> it' = it\<lparr>dbIterator :=
             Some (if reverse it then Prev (snapshot_it it) i else Next (snapshot_it it) i)\<rparr>"
  by (auto simp: step_def Valid_def split: option.splits if_splits)

lemma in_range_fields [simp]:
  "in_range (it\<lparr>count := c\<rparr>) = in_range it"
  "in_range (it\<lparr>dbIterator := p\<rparr>) = in_range it"
  "in_range (it\<lparr>seeking := b\<rparr>) = in_range it"
  "in_range (it\<lparr>landed := b\<rparr>) = in_range it"
  by (simp_all add: in_range_def fun_eq_iff cong: option.case_cong)

text \<open>
  What \<^verbatim>\<open>Read\<close> hands out for an entry: the key and the value, each empty unless the
  cursor was asked for it.
\<close>

definition emit :: "Iterator \<Rightarrow> string \<times> string \<Rightarrow> string \<times> string" where
  "emit it kv = (if keys it then fst kv else [], if values_it it then snd kv else [])"

lemma emit_fields [simp]:
  "emit (it\<lparr>count := c\<rparr>) = emit it"
  "emit (it\<lparr>dbIterator := p\<rparr>) = emit it"
  "emit (it\<lparr>seeking := b\<rparr>) = emit it"
  "emit (it\<lparr>landed := b\<rparr>) = emit it"
  by (simp_all add: emit_def fun_eq_iff)

text \<open>
  Where the head of \<^verbatim>\<open>Read\<close> leaves the engine iterator, when it does not fault.
\<close>

definition moved_position :: "Iterator \<Rightarrow> nat option" where
  "moved_position it =
     (case dbIterator it of
        None \<Rightarrow> initial_position it
      | Some p \<Rightarrow>
          if seeking it then p
          else (case p of
                  None \<Rightarrow> None
                | Some i \<Rightarrow> if reverse it then Prev (snapshot_it it) i else Next (snapshot_it it) i))"

lemma Read_move_eq:
  "Read_move it = Inr it3 \<Longrightarrow> it3 = it\<lparr>dbIterator := Some (moved_position it), seeking := False\<rparr>"
  by (auto simp: Read_move_def GetIterator_def moved_position_def step_def
           split: option.splits if_splits)


text \<open>
  The index of the entry under the engine iterator, if the iterator is made and valid.
\<close>

definition entry_at :: "Iterator \<Rightarrow> nat option" where
  "entry_at it =
     (case dbIterator it of
        Some (Some i) \<Rightarrow> if i < length (snapshot_it it) then Some i else None
      | _ \<Rightarrow> None)"

lemma entry_at_Some:
  "(entry_at it = Some i) = (dbIterator it = Some (Some i) \<and> i < length (snapshot_it it))"
  by (auto simp: entry_at_def split: option.splits)

lemma entry_at_None:
  "(entry_at it = None) =
     (dbIterator it = None \<or> dbIterator it = Some None
      \<or> (\<exists>i. dbIterator it = Some (Some i) \<and> length (snapshot_it it) \<le> i))"
  by (auto simp: entry_at_def split: option.splits)

lemma Read_entry_none:
  "entry_at it3 = None \<Longrightarrow> Read_entry it3 = Inr (False, [], [], it3)"
  unfolding entry_at_None
  by (auto simp: Read_entry_def Valid_def)

lemma Read_entry_some:
  assumes "entry_at it3 = Some i"
  shows "Read_entry it3 =
       (if limit it3 < 0 then
          (if in_range it3 (key_at (snapshot_it it3) i)
           then Inr (True, fst (emit it3 (snapshot_it it3 ! i)),
                     snd (emit it3 (snapshot_it it3 ! i)), it3)
           else Inr (False, [], [], it3))
        else if count it3 \<ge> 2147483647 then Inl SignedOverflow
        else if count it3 + 1 \<le> limit it3 \<and> in_range it3 (key_at (snapshot_it it3) i)
        then Inr (True, fst (emit it3 (snapshot_it it3 ! i)),
                  snd (emit it3 (snapshot_it it3 ! i)), it3\<lparr>count := count it3 + 1\<rparr>)
        else Inr (False, [], [], it3\<lparr>count := count it3 + 1\<rparr>))"
proof -
  from assms have d: "dbIterator it3 = Some (Some i)" and v: "i < length (snapshot_it it3)"
    by (simp_all add: entry_at_Some)
  show ?thesis
    by (simp add: Read_entry_def d v Valid_def count_entry_def emit_def key_at_def value_at_def
          Let_def)
qed

text \<open>
  The counter after the rest of \<^verbatim>\<open>Read\<close>, when it does not fault.
\<close>

definition counted :: "Iterator \<Rightarrow> int" where
  "counted it3 = (if limit it3 < 0 \<or> entry_at it3 = None then count it3 else count it3 + 1)"

lemma Read_entry_eq:
  assumes "Read_entry it3 = Inr (got, k, v, it')"
  shows "it' = it3\<lparr>count := counted it3\<rparr>"
    and "got = (\<exists>i. entry_at it3 = Some i \<and> (limit it3 < 0 \<or> count it3 + 1 \<le> limit it3)
                  \<and> in_range it3 (key_at (snapshot_it it3) i))"
    and "got \<Longrightarrow> \<exists>i. entry_at it3 = Some i \<and> (k, v) = emit it3 (snapshot_it it3 ! i)"
proof -
  show "it' = it3\<lparr>count := counted it3\<rparr>"
  proof (cases "entry_at it3")
    case None
    with Read_entry_none [OF None] assms show ?thesis by (simp add: counted_def)
  next
    case (Some i)
    with Read_entry_some [OF Some] assms show ?thesis
      by (auto simp: counted_def split: if_splits)
  qed
  show "got = (\<exists>i. entry_at it3 = Some i \<and> (limit it3 < 0 \<or> count it3 + 1 \<le> limit it3)
                  \<and> in_range it3 (key_at (snapshot_it it3) i))"
  proof (cases "entry_at it3")
    case None
    with Read_entry_none [OF None] assms show ?thesis by simp
  next
    case (Some i)
    with Read_entry_some [OF Some] assms show ?thesis
      by (auto split: if_splits)
  qed
  show "got \<Longrightarrow> \<exists>i. entry_at it3 = Some i \<and> (k, v) = emit it3 (snapshot_it it3 ! i)"
  proof (cases "entry_at it3")
    case None
    assume got
    with Read_entry_none [OF None] assms show ?thesis by simp
  next
    case (Some i)
    assume got
    with Some Read_entry_some [OF Some] assms show ?thesis
      by (auto split: if_splits)
  qed
qed

lemma Read_split:
  assumes "Read it = Inr (got, k, v, it')"
  obtains it3 where "Read_move it = Inr it3" and "Read_entry it3 = Inr (got, k, v, it')"
  using assms by (auto simp: Read_def split: sum.splits)

lemma Read_frame:
  assumes "Read it = Inr (got, k, v, it')"
  shows "\<exists>p c. it' = it\<lparr>dbIterator := Some p, count := c, seeking := False\<rparr>
           \<and> count it \<le> c \<and> (got \<longrightarrow> limit it < 0 \<or> c = count it + 1 \<and> c \<le> limit it)"
proof -
  from assms obtain it3 where m: "Read_move it = Inr it3" and e: "Read_entry it3 = Inr (got, k, v, it')"
    by (rule Read_split)
  note m' = Read_move_eq [OF m]
  note e' = Read_entry_eq [OF e]
  have "it' = it\<lparr>dbIterator := Some (moved_position it), count := counted it3, seeking := False\<rparr>"
    using e'(1) m' by simp
  moreover have "count it \<le> counted it3"
    using m' by (simp add: counted_def)
  moreover have "got \<longrightarrow> limit it < 0 \<or> counted it3 = count it + 1 \<and> counted it3 \<le> limit it"
    using e'(2) m' by (auto simp: counted_def)
  ultimately show ?thesis by blast
qed

lemma Read_ahead:
  assumes "Read it = Inr (True, k, v, it')"
  shows "ahead it' < ahead it"
proof -
  from assms obtain it3 where m: "Read_move it = Inr it3" and e: "Read_entry it3 = Inr (True, k, v, it')"
    by (rule Read_split)
  from Read_entry_eq(2) [OF e] obtain i where i: "entry_at it3 = Some i"
    by auto
  have "ahead (it3\<lparr>count := c\<rparr>) < ahead it" for c
    using i unfolding Read_move_eq [OF m] entry_at_Some
    by (auto simp: ahead_def moved_position_def Next_def Prev_def split: option.splits if_splits)
  with Read_entry_eq(1) [OF e] show ?thesis
    by metis
qed

text \<open>
  \<^verbatim>\<open>IteratorNext\<close>: \<open>result\<close> is the vector the worker passes in, \<open>sz\<close> the local
  byte count \<^verbatim>\<open>size\<close>. The first entry a cursor ever reads sets \<^verbatim>\<open>landed_\<close> and ends the call at
  once; after that a call goes on until the bytes read in it exceed \<^verbatim>\<open>highWaterMark_\<close>
  or \<^verbatim>\<open>Read\<close> yields nothing.
\<close>

function IteratorNext_loop ::
  "Iterator \<Rightarrow> (string \<times> string) list \<Rightarrow> nat
     \<Rightarrow> fault + (bool \<times> (string \<times> string) list \<times> Iterator)" where
  "IteratorNext_loop it result sz =
     (case Read it of
        Inl f \<Rightarrow> Inl f
      | Inr (got, key, val, it') \<Rightarrow>
          if got then
            (let result' = result @ [(key, val)]
             in if \<not> landed it' then Inr (True, result', it'\<lparr>landed := True\<rparr>)
                else
                  (let sz' = sz + length key + length val
                   in if sz' > unat (highWaterMark it') then Inr (True, result', it')
                      else IteratorNext_loop it' result' sz'))
          else Inr (False, result, it'))"
  by pat_completeness auto
termination
  by (relation "measure (\<lambda>(it, result, sz). ahead it)") (auto dest: Read_ahead)

declare IteratorNext_loop.simps [simp del]

definition IteratorNext ::
  "Iterator \<Rightarrow> (string \<times> string) list
     \<Rightarrow> fault + (bool \<times> (string \<times> string) list \<times> Iterator)" where
  "IteratorNext it result = IteratorNext_loop it result 0"


text \<open>The constructor of \<^verbatim>\<open>struct Iterator\<close>; the snapshot is taken here.\<close>

definition new_Iterator ::
  "snapshot \<Rightarrow> 32 word \<Rightarrow> string option \<Rightarrow> string option \<Rightarrow> bool \<Rightarrow> bool \<Rightarrow> bool \<Rightarrow> int
     \<Rightarrow> string option \<Rightarrow> string option \<Rightarrow> string option \<Rightarrow> string option
     \<Rightarrow> bool \<Rightarrow> bool \<Rightarrow> bool \<Rightarrow> 32 word \<Rightarrow> Iterator" where
  "new_Iterator snap i start' end' reverse' keys' values' limit' lt' lte' gt' gte'
       fillCache' keyAsBuffer' valueAsBuffer' highWaterMark' =
     \<lparr>id_it = i, start = start', end_it = end', reverse = reverse', keys = keys',
      values_it = values', limit = limit', lt = lt', lte = lte', gt = gt', gte = gte',
      fillCache = fillCache', keyAsBuffer = keyAsBuffer', valueAsBuffer = valueAsBuffer',
      highWaterMark = highWaterMark', dbIterator = None, count = 0, target = None,
      seeking = False, landed = False, nexting = False, ended = False, endWorker = None,
      snapshot_it = snap\<rparr>"

section \<open>Creating an iterator from an options object\<close>

text \<open>
  An options object is what \<^verbatim>\<open>HasProperty\<close> and \<^verbatim>\<open>GetProperty\<close> see of it: a partial
  map from property names to host values.
\<close>

type_synonym napi_object = "string \<Rightarrow> napi_value option"

definition HasProperty :: "napi_object \<Rightarrow> string \<Rightarrow> bool" where
  "HasProperty obj key = (obj key \<noteq> None)"

definition GetProperty :: "napi_object \<Rightarrow> string \<Rightarrow> napi_value" where
  "GetProperty obj key = (case obj key of Some v \<Rightarrow> v | None \<Rightarrow> JSUndefined)"

text \<open>
  The three readers return a local that \<^verbatim>\<open>napi_get_value_*\<close> writes only for a value
  of the right type.
\<close>

definition BooleanProperty :: "napi_object \<Rightarrow> string \<Rightarrow> bool \<Rightarrow> fault + bool" where
  "BooleanProperty obj key DEFAULT =
     (if HasProperty obj key then
        (case GetProperty obj key of JSBoolean b \<Rightarrow> Inr b | _ \<Rightarrow> Inl UninitializedRead)
      else Inr DEFAULT)"

definition Uint32Property :: "napi_object \<Rightarrow> string \<Rightarrow> 32 word \<Rightarrow> fault + 32 word" where
  "Uint32Property obj key DEFAULT =
     (if HasProperty obj key then
        (case GetProperty obj key of JSNumber n \<Rightarrow> Inr (word_of_int n) | _ \<Rightarrow> Inl UninitializedRead)
      else Inr DEFAULT)"

definition Int32Property :: "napi_object \<Rightarrow> string \<Rightarrow> int \<Rightarrow> fault + int" where
  "Int32Property obj key DEFAULT =
     (if HasProperty obj key then
        (case GetProperty obj key of
           JSNumber n \<Rightarrow> Inr (sint (word_of_int n :: 32 word))
         | _ \<Rightarrow> Inl UninitializedRead)
      else Inr DEFAULT)"

definition IsString :: "napi_value \<Rightarrow> bool" where
  "IsString v = (case v of JSString s \<Rightarrow> True | _ \<Rightarrow> False)"

definition IsBuffer :: "napi_value \<Rightarrow> bool" where
  "IsBuffer v = (case v of JSBuffer b \<Rightarrow> True | _ \<Rightarrow> False)"

definition StringOrBufferLength :: "napi_value \<Rightarrow> nat" where
  "StringOrBufferLength v =
     (case v of JSString s \<Rightarrow> length s | JSBuffer b \<Rightarrow> length b | _ \<Rightarrow> 0)"

text \<open>The macro \<^verbatim>\<open>LD_STRING_OR_BUFFER_TO_COPY\<close>: the bytes of a string or a buffer.\<close>

definition LD_STRING_OR_BUFFER_TO_COPY :: "napi_value \<Rightarrow> string" where
  "LD_STRING_OR_BUFFER_TO_COPY v =
     (case v of JSString s \<Rightarrow> s | JSBuffer b \<Rightarrow> b | _ \<Rightarrow> [])"

text \<open>
  The guard that \<^verbatim>\<open>iterator\<close> repeats for each of \<^verbatim>\<open>start\<close>, \<^verbatim>\<open>end\<close>, \<^verbatim>\<open>lt\<close>,
  \<^verbatim>\<open>lte\<close>, \<^verbatim>\<open>gt\<close>, \<^verbatim>\<open>gte\<close>: the property is there, it is a string or a buffer, its
  length is positive; only then is a bound made.
\<close>

definition bound_property :: "napi_object \<Rightarrow> string \<Rightarrow> string option" where
  "bound_property obj key =
     (if HasProperty obj key then
        (let v = GetProperty obj key
         in if IsString v \<or> IsBuffer v then
              (if StringOrBufferLength v > 0 then Some (LD_STRING_OR_BUFFER_TO_COPY v) else None)
            else None)
      else None)"

definition and_then :: "fault + 'a \<Rightarrow> ('a \<Rightarrow> fault + 'b) \<Rightarrow> fault + 'b" where
  "and_then r f = (case r of Inl e \<Rightarrow> Inl e | Inr x \<Rightarrow> f x)"

text \<open>
  \<^verbatim>\<open>NAPI_METHOD(iterator)\<close>. \<open>snap\<close> is the snapshot the engine gives at this moment.
  \<^verbatim>\<open>start\<close> is replaced by \<^verbatim>\<open>lt\<close>, then by \<^verbatim>\<open>lte\<close>, when the scan is reversed, and by
  \<^verbatim>\<open>gt\<close>, then by \<^verbatim>\<open>gte\<close>, when it is not.
\<close>

definition iterator :: "snapshot \<Rightarrow> napi_object \<Rightarrow> Database \<Rightarrow> fault + (Iterator \<times> Database)" where
  "iterator snap options database =
     and_then (BooleanProperty options ''reverse'' False) (\<lambda>reverse'.
     and_then (BooleanProperty options ''keys'' True) (\<lambda>keys'.
     and_then (BooleanProperty options ''values'' True) (\<lambda>values'.
     and_then (BooleanProperty options ''fillCache'' False) (\<lambda>fillCache'.
     and_then (BooleanProperty options ''keyAsBuffer'' True) (\<lambda>keyAsBuffer'.
     and_then (BooleanProperty options ''valueAsBuffer'' True) (\<lambda>valueAsBuffer'.
     and_then (Int32Property options ''limit'' (- 1)) (\<lambda>limit'.
     and_then (Uint32Property options ''highWaterMark'' (16 * 1024)) (\<lambda>highWaterMark'.
       (let start0 = bound_property options ''start'';
            end' = bound_property options ''end'';
            lt' = bound_property options ''lt'';
            start1 = (if lt' \<noteq> None \<and> reverse' then lt' else start0);
            lte' = bound_property options ''lte'';
            start2 = (if lte' \<noteq> None \<and> reverse' then lte' else start1);
            gt' = bound_property options ''gt'';
            start3 = (if gt' \<noteq> None \<and> \<not> reverse' then gt' else start2);
            gte' = bound_property options ''gte'';
            start4 = (if gte' \<noteq> None \<and> \<not> reverse' then gte' else start3);
            i = currentIteratorId database;
            it = new_Iterator snap i start4 end' reverse' keys' values' limit'
                   lt' lte' gt' gte' fillCache' keyAsBuffer' valueAsBuffer' highWaterMark'
        in Inr (it, database\<lparr>currentIteratorId := i + 1,
                              iterators := insert i (iterators database)\<rparr>))))))))))"

section \<open>Ending and advancing an iterator\<close>

text \<open>
  \<^verbatim>\<open>iterator_end\<close>, \<^verbatim>\<open>CheckEndCallback\<close> and \<^verbatim>\<open>iterator_next\<close> run on the main thread
  and act on the iterator and on the work queue. Each of the two methods returns
  undefined on every path and throws nothing.
\<close>

definition iterator_end ::
  "callback \<Rightarrow> Iterator \<times> async_work list \<Rightarrow> Iterator \<times> async_work list" where
  "iterator_end cb iq =
     (if \<not> ended (fst iq) then
        (let worker = EndWork (id_it (fst iq)) cb;
             it = (fst iq)\<lparr>ended := True\<rparr>
         in if nexting it then (it\<lparr>endWorker := Some worker\<rparr>, snd iq)
            else (it, snd iq @ [worker]))
      else iq)"

definition CheckEndCallback :: "Iterator \<times> async_work list \<Rightarrow> Iterator \<times> async_work list" where
  "CheckEndCallback iq =
     (let it = (ReleaseTarget (fst iq))\<lparr>nexting := False\<rparr>
      in case endWorker it of
           Some w \<Rightarrow> (it\<lparr>endWorker := None\<rparr>, snd iq @ [w])
         | None \<Rightarrow> (it, snd iq))"

definition iterator_next ::
  "callback \<Rightarrow> Iterator \<times> async_work list \<Rightarrow> Iterator \<times> async_work list" where
  "iterator_next cb iq =
     (if ended (fst iq) then iq
      else ((fst iq)\<lparr>nexting := True\<rparr>, snd iq @ [NextWork (id_it (fst iq)) cb]))"

section \<open>NextWorker\<close>

record NextWorker = BaseWorker +
  result_vec :: "(string \<times> string) list"
  ok_flag :: bool

definition new_NextWorker :: NextWorker where
  "new_NextWorker = \<lparr>status = Status_OK, errMsg = None, result_vec = [], ok_flag = False\<rparr>"

text \<open>
  \<^verbatim>\<open>NextWorker::DoExecute\<close>; \<open>iterator_status\<close> is what the engine iterator reports
  when \<^verbatim>\<open>IteratorStatus()\<close> asks.
\<close>

definition NextWorker_DoExecute ::
  "(Status \<Rightarrow> string) \<Rightarrow> Status \<Rightarrow> Iterator \<Rightarrow> NextWorker \<Rightarrow> fault + (Iterator \<times> NextWorker)" where
  "NextWorker_DoExecute ToString iterator_status it w =
     (case IteratorNext it (result_vec w) of
        Inl f \<Rightarrow> Inl f
      | Inr (got, res, it') \<Rightarrow>
          (let w' = w\<lparr>result_vec := res, ok_flag := got\<rparr>
           in Inr (it', if \<not> got then SetStatus ToString iterator_status w' else w')))"

text \<open>
  \<^verbatim>\<open>napi_set_element\<close> on a host array: inside the array the element is replaced,
  beyond it the array grows. Its index is 32 bits wide; the source computes it in
  \<^verbatim>\<open>size_t\<close> and casts.
\<close>

definition napi_set_element :: "napi_value list \<Rightarrow> nat \<Rightarrow> napi_value \<Rightarrow> napi_value list" where
  "napi_set_element arr i v =
     (if i < length arr then arr[i := v]
      else arr @ replicate (i - length arr) JSUndefined @ [v])"

definition element_index :: "64 word \<Rightarrow> 64 word \<Rightarrow> 64 word \<Rightarrow> nat" where
  "element_index arraySize idx k = unat (ucast (arraySize - idx * 2 - k) :: 32 word)"

text \<open>The host values made for the key and for the value of one row.\<close>

definition returnKey :: "Iterator \<Rightarrow> string \<times> string \<Rightarrow> napi_value" where
  "returnKey it row = (if keyAsBuffer it then JSBuffer (fst row) else JSString (fst row))"

definition returnValue :: "Iterator \<Rightarrow> string \<times> string \<Rightarrow> napi_value" where
  "returnValue it row = (if valueAsBuffer it then JSBuffer (snd row) else JSString (snd row))"

function fill_array ::
  "Iterator \<Rightarrow> (string \<times> string) list \<Rightarrow> 64 word \<Rightarrow> nat \<Rightarrow> napi_value list \<Rightarrow> napi_value list" where
  "fill_array it res arraySize idx jsArray =
     (if idx < length res then
        (let row = res ! idx;
             a1 = napi_set_element jsArray (element_index arraySize (word_of_nat idx) 1)
                    (returnKey it row);
             a2 = napi_set_element a1 (element_index arraySize (word_of_nat idx) 2)
                    (returnValue it row)
         in fill_array it res arraySize (Suc idx) a2)
      else jsArray)"
  by pat_completeness auto
termination
  by (relation "measure (\<lambda>(it, res, arraySize, idx, jsArray). length res - idx)") auto

declare fill_array.simps [simp del]

definition result_array :: "Iterator \<Rightarrow> (string \<times> string) list \<Rightarrow> napi_value list" where
  "result_array it res =
     (let arraySize = word_of_nat (length res) * 2 :: 64 word
      in fill_array it res arraySize 0 (replicate (unat arraySize) JSUndefined))"

definition NextWorker_HandleOKCallback ::
  "NextWorker \<Rightarrow> Iterator \<times> async_work list
     \<Rightarrow> napi_value list \<times> (Iterator \<times> async_work list)" where
  "NextWorker_HandleOKCallback w iq =
     (let jsArray = result_array (fst iq) (result_vec w)
      in ([JSNull, JSArray jsArray, JSBoolean (\<not> ok_flag w)], CheckEndCallback iq))"

definition NextWorker_Complete ::
  "NextWorker \<Rightarrow> Iterator \<times> async_work list
     \<Rightarrow> fault + (napi_value list \<times> (Iterator \<times> async_work list))" where
  "NextWorker_Complete w iq = DoComplete (NextWorker_HandleOKCallback w) w iq"


section \<open>Notions used in the statements\<close>

text \<open>
  The bytes of a list of pairs as \<^verbatim>\<open>IteratorNext\<close> counts them; the entries that lie
  after position \<open>i\<close> in the scan direction; the part of them the limit still admits;
  the longest run of those that pass the range test, which is all a scan can still hand
  out; and the state in which no entry under the engine iterator can be handed out.
\<close>

definition bytes :: "(string \<times> string) list \<Rightarrow> nat" where
  "bytes xs = sum_list (map (\<lambda>kv. length (fst kv) + length (snd kv)) xs)"





text \<open>A caller that advances a cursor \<open>n\<close> times, each time with a fresh result vector.\<close>

fun run_advances :: "nat \<Rightarrow> Iterator \<Rightarrow> fault + ((string \<times> string) list \<times> Iterator)" where
  "run_advances 0 it = Inr ([], it)"
| "run_advances (Suc n) it =
     (case IteratorNext it [] of
        Inl f \<Rightarrow> Inl f
      | Inr (got, res, it1) \<Rightarrow>
          (case run_advances n it1 of
             Inl f \<Rightarrow> Inl f
           | Inr (rs, it2) \<Rightarrow> Inr (res @ rs, it2)))"

section \<open>Example data\<close>

text \<open>
  Modelled from the spec: the engine, which is not part of the source, returns statuses
  that tell ok, not found and other errors apart, each with a readable message. Its
  rendering \<^verbatim>\<open>ToString\<close> is taken to be the name of the code followed by the message.
\<close>

definition ToString_sample :: "Status \<Rightarrow> string" where
  "ToString_sample s =
     (case code s of
        kOk \<Rightarrow> ''OK''
      | kNotFound \<Rightarrow> ''NotFound: '' @ msg s
      | kCorruption \<Rightarrow> ''Corruption: '' @ msg s
      | kNotSupported \<Rightarrow> ''Not implemented: '' @ msg s
      | kInvalidArgument \<Rightarrow> ''Invalid argument: '' @ msg s
      | kIOError \<Rightarrow> ''IO error: '' @ msg s)"

text \<open>
  A snapshot of six entries, a database with one registered iterator and a cursor with
  default options.
\<close>

definition abcdef :: snapshot where
  "abcdef = [(''a'', ''1''), (''b'', ''2''), (''c'', ''3''), (''d'', ''4''), (''e'', ''5''), (''f'', ''6'')]"

definition db_one_cursor :: Database where
  "db_one_cursor = \<lparr>currentIteratorId = 1, pendingCloseWorker = None, iterators = {0}\<rparr>"

definition plain_cursor :: "snapshot \<Rightarrow> Iterator" where
  "plain_cursor snap =
     new_Iterator snap 0 None None False True True (- 1) None None None None
       False True True (16 * 1024)"

text \<open>Options and cursors for the scans of the examples.\<close>

definition end_c_options :: napi_object where
  "end_c_options = [''end'' \<mapsto> JSString ''c'']"

definition end_c_cursor :: Iterator where
  "end_c_cursor = (plain_cursor abcdef)\<lparr>end_it := Some ''c''\<rparr>"

definition end_c_limit_cursor :: Iterator where
  "end_c_limit_cursor = end_c_cursor\<lparr>limit := 10, lt := Some ''e''\<rparr>"

definition limit_options :: napi_object where
  "limit_options = [''gte'' \<mapsto> JSString ''b'', ''lt'' \<mapsto> JSString ''e'', ''limit'' \<mapsto> JSNumber 2]"

definition limit_cursor :: Iterator where
  "limit_cursor =
     (plain_cursor abcdef)\<lparr>start := Some ''b'', limit := 2, lt := Some ''e'', gte := Some ''b''\<rparr>"

definition landed_cursor :: Iterator where
  "landed_cursor = (plain_cursor abcdef)\<lparr>dbIterator := Some (Some 0), landed := True\<rparr>"


definition corruption :: Status where
  "corruption = \<lparr>code = kCorruption, msg = ''bad block''\<rparr>"

definition last_cursor :: Iterator where
  "last_cursor = (plain_cursor abcdef)\<lparr>dbIterator := Some (Some 5), landed := True\<rparr>"

definition end_stored_cursor :: Iterator where
  "end_stored_cursor = last_cursor\<lparr>nexting := True, ended := True, endWorker := Some (EndWork 0 2)\<rparr>"

definition failed_worker :: NextWorker where
  "failed_worker = new_NextWorker\<lparr>status := corruption, errMsg := Some ''Corruption: bad block''\<rparr>"

definition unusable_options :: napi_object where
  "unusable_options = [''lt'' \<mapsto> JSNumber 5]"

definition two_rows_worker :: NextWorker where
  "two_rows_worker = new_NextWorker\<lparr>result_vec := [(''a'', ''1''), (''b'', ''2'')], ok_flag := True\<rparr>"

lemmas scan_defs =
  IteratorNext_def IteratorNext_loop.simps Read_def Read_move_def Read_entry_def
  GetIterator_def initial_position_def reverse_correct_def step_def count_entry_def in_range_def
  Valid_def Seek_def SeekToFirst_def SeekToLast_def Next_def Prev_def key_at_def value_at_def
  Let_def plain_cursor_def new_Iterator_def abcdef_def

lemmas option_defs =
  iterator_def and_then_def BooleanProperty_def Int32Property_def Uint32Property_def
  HasProperty_def GetProperty_def bound_property_def IsString_def IsBuffer_def
  StringOrBufferLength_def LD_STRING_OR_BUFFER_TO_COPY_def new_Database_def

section \<open>Closing a database\<close>

text \<open>
  C1 says that a close request with cursor ids registered is stored as the pending close
  and queued only when the last cursor is released. \<^verbatim>\<open>ReleaseIterator\<close> does queue a
  pending close worker, but \<^verbatim>\<open>db_close\<close> never stores one: with iterator 0 registered,
  the close worker is queued at once and \<^verbatim>\<open>pendingCloseWorker_\<close> stays empty.
\<close>

theorem db_close_ignores_registry:
  "iterators db_one_cursor = {0}
   \<and> db_close 7 (db_one_cursor, []) = (db_one_cursor, [CloseWork 7])
   \<and> pendingCloseWorker (fst (db_close 7 (db_one_cursor, []))) = None"
  by (simp add: db_close_def db_one_cursor_def)

text \<open>
  The half that exists: once a close worker is pending, releasing the last registered
  iterator queues it.
\<close>

lemma ReleaseIterator_queues_pending:
  "pendingCloseWorker d = Some w \<Longrightarrow> iterators d \<subseteq> {i} \<Longrightarrow>
     ReleaseIterator i (d, q) = (d\<lparr>iterators := {}, pendingCloseWorker := None\<rparr>, q @ [w])"
  by (auto simp: ReleaseIterator_def Let_def)

section \<open>Failures of get\<close>

lemma c_str_idem [simp]: "c_str (c_str m) = c_str m"
  by (simp add: c_str_def)






section \<open>Ended cursors\<close>

text \<open>
  C7: on a cursor whose \<^verbatim>\<open>ended_\<close> flag is set, an advance request changes neither the
  cursor nor the work queue; it makes no worker, so no callback is ever called with an
  error.
\<close>

theorem iterator_next_ended_noop:
  "ended (fst iq) \<Longrightarrow> iterator_next cb iq = iq"
  by (simp add: iterator_next_def)

theorem iterator_next_ended_noop_witness:
  "ended ((plain_cursor abcdef)\<lparr>ended := True\<rparr>)
   \<and> iterator_next 5 ((plain_cursor abcdef)\<lparr>ended := True\<rparr>, [EndWork 0 4])
       = ((plain_cursor abcdef)\<lparr>ended := True\<rparr>, [EndWork 0 4])"
  using iterator_next_ended_noop [of "((plain_cursor abcdef)\<lparr>ended := True\<rparr>, [EndWork 0 4])" 5]
  by simp

text \<open>
  C8: an end request sets \<^verbatim>\<open>ended_\<close>; on a cursor that is ended, an end request changes
  neither the cursor nor the work queue, so no second end worker exists; and the flag,
  once set, survives advance requests and the completion of an advance.
\<close>

theorem iterator_end_idempotent:
  "ended (fst (iterator_end cb iq))
   \<and> (ended (fst iq) \<longrightarrow>
        iterator_end cb' iq = iq
        \<and> ended (fst (iterator_next cb' iq))
        \<and> ended (fst (CheckEndCallback iq)))"
  by (simp add: iterator_end_def iterator_next_def CheckEndCallback_def ReleaseTarget_def Let_def
           split: option.splits)

theorem iterator_end_idempotent_witness:
  "iterator_end 1 (plain_cursor abcdef, []) = ((plain_cursor abcdef)\<lparr>ended := True\<rparr>, [EndWork 0 1])
   \<and> ended (fst (iterator_end 1 (plain_cursor abcdef, [])))
   \<and> iterator_end 2 (iterator_end 1 (plain_cursor abcdef, []))
       = iterator_end 1 (plain_cursor abcdef, [])"
  using iterator_end_idempotent [of 1 "(plain_cursor abcdef, [])" 2]
    iterator_end_idempotent [of 1 "iterator_end 1 (plain_cursor abcdef, [])" 2]
  by (simp add: iterator_end_def plain_cursor_def new_Iterator_def)

section \<open>One read\<close>

lemma Read_got:
  assumes "Read it = Inr (got, k, v, it')"
  shows "got = (\<exists>i. dbIterator it' = Some (Some i) \<and> i < length (snapshot_it it)
                  \<and> (limit it < 0 \<or> count it' \<le> limit it)
                  \<and> in_range it (key_at (snapshot_it it) i))"
proof -
  from assms obtain it3 where m: "Read_move it = Inr it3" and e: "Read_entry it3 = Inr (got, k, v, it')"
    by (rule Read_split)
  note m' = Read_move_eq [OF m]
  have it': "it' = it\<lparr>dbIterator := Some (moved_position it), count := counted it3, seeking := False\<rparr>"
    using Read_entry_eq(1) [OF e] m' by simp
  have "got = (\<exists>i. entry_at it3 = Some i \<and> (limit it3 < 0 \<or> count it3 + 1 \<le> limit it3)
                  \<and> in_range it3 (key_at (snapshot_it it3) i))"
    by (rule Read_entry_eq(2) [OF e])
  also have "\<dots> = (\<exists>i. dbIterator it' = Some (Some i) \<and> i < length (snapshot_it it)
                  \<and> (limit it < 0 \<or> count it' \<le> limit it)
                  \<and> in_range it (key_at (snapshot_it it) i))"
    unfolding entry_at_Some it' unfolding m' by (auto simp: counted_def entry_at_def)
  finally show ?thesis .
qed

text \<open>
  C3, as amended: with an \<^verbatim>\<open>end\<close> bound, a read whose engine iterator rests on a key
  strictly beyond \<^verbatim>\<open>end\<close> in the scan direction yields nothing (forward: \<^verbatim>\<open>end\<close> below
  the key; reverse: \<^verbatim>\<open>end\<close> above the key). The bound is inclusive: the read yields the
  entry exactly when the limit admits it, the key is not strictly beyond \<^verbatim>\<open>end\<close>, and
  the \<^verbatim>\<open>lt\<close> or \<^verbatim>\<open>lte\<close> test and the \<^verbatim>\<open>gt\<close> or \<^verbatim>\<open>gte\<close> test pass; so a key equal to
  \<^verbatim>\<open>end\<close> is read whenever no other check stops it.
\<close>

theorem Read_end_bound:
  assumes "Read it = Inr (got, k, v, it')" and "end_it it = Some e"
    and "dbIterator it' = Some (Some i)" and "i < length (snapshot_it it)"
  shows "(\<not> reverse it \<and> compare e (key_at (snapshot_it it) i) < 0 \<longrightarrow> \<not> got)
       \<and> (reverse it \<and> 0 < compare e (key_at (snapshot_it it) i) \<longrightarrow> \<not> got)
       \<and> got =
           ((limit it < 0 \<or> count it' \<le> limit it)
            \<and> (if reverse it then compare e (key_at (snapshot_it it) i) \<le> 0
                else 0 \<le> compare e (key_at (snapshot_it it) i))
            \<and> (case lt it of
                  Some l \<Rightarrow> 0 < compare l (key_at (snapshot_it it) i)
                | None \<Rightarrow>
                    (case lte it of
                       Some l \<Rightarrow> 0 \<le> compare l (key_at (snapshot_it it) i)
                     | None \<Rightarrow> True))
            \<and> (case gt it of
                  Some g \<Rightarrow> compare g (key_at (snapshot_it it) i) < 0
                | None \<Rightarrow>
                    (case gte it of
                       Some g \<Rightarrow> compare g (key_at (snapshot_it it) i) \<le> 0
                     | None \<Rightarrow> True)))"
proof -
  have g: "got = ((limit it < 0 \<or> count it' \<le> limit it)
                  \<and> in_range it (key_at (snapshot_it it) i))"
    using assms(3,4) unfolding Read_got [OF assms(1)] by auto
  show ?thesis
    unfolding g using assms(2) by (auto simp: in_range_def)
qed

text \<open>
  C3 as stated has a forward scan stop once the key is at or above \<^verbatim>\<open>end\<close>. A cursor
  made with \<^verbatim>\<open>end\<close> = c over the keys a to f hands out a, then b and c: the key equal to
  \<^verbatim>\<open>end\<close> is read.
\<close>

theorem Read_end_bound_counterexample:
  "iterator abcdef end_c_options new_Database
     = Inr (end_c_cursor, new_Database\<lparr>currentIteratorId := 1, iterators := {0}\<rparr>)
   \<and> IteratorNext end_c_cursor []
     = Inr (True, [(''a'', ''1'')], end_c_cursor\<lparr>dbIterator := Some (Some 0), landed := True\<rparr>)
   \<and> IteratorNext (end_c_cursor\<lparr>dbIterator := Some (Some 0), landed := True\<rparr>) []
     = Inr (False, [(''b'', ''2''), (''c'', ''3'')],
            end_c_cursor\<lparr>dbIterator := Some (Some 3), landed := True\<rparr>)
   \<and> compare ''c'' ''c'' = 0"
  by (simp add: iterator_def and_then_def BooleanProperty_def Int32Property_def Uint32Property_def
        HasProperty_def GetProperty_def bound_property_def IsString_def IsBuffer_def
        StringOrBufferLength_def LD_STRING_OR_BUFFER_TO_COPY_def end_c_options_def
        end_c_cursor_def plain_cursor_def new_Iterator_def new_Database_def abcdef_def
        IteratorNext_def IteratorNext_loop.simps Read_def Read_move_def Read_entry_def
        GetIterator_def initial_position_def step_def count_entry_def in_range_def
        Valid_def SeekToFirst_def Next_def key_at_def value_at_def Let_def)

text \<open>
  The theorem at two reads of cursors with \<^verbatim>\<open>end\<close> = c: one that steps from c to d and
  yields nothing, and one with limit 10 and the bound lt = e that steps from b to c and
  yields c.
\<close>

theorem Read_end_bound_witness:
  "Read (end_c_cursor\<lparr>dbIterator := Some (Some 2), landed := True\<rparr>)
     = Inr (False, [], [], end_c_cursor\<lparr>dbIterator := Some (Some 3), landed := True\<rparr>)
   \<and> compare ''c'' (key_at abcdef 3) < 0
   \<and> Read (end_c_limit_cursor\<lparr>dbIterator := Some (Some 1), count := 2, landed := True\<rparr>)
     = Inr (True, ''c'', ''3'',
            end_c_limit_cursor\<lparr>dbIterator := Some (Some 2), count := 3, landed := True\<rparr>)
   \<and> compare ''c'' (key_at abcdef 2) = 0"
  using Read_end_bound [of "end_c_cursor\<lparr>dbIterator := Some (Some 2), landed := True\<rparr>"
      False "[]" "[]" "end_c_cursor\<lparr>dbIterator := Some (Some 3), landed := True\<rparr>" "''c''" 3]
    Read_end_bound [of "end_c_limit_cursor\<lparr>dbIterator := Some (Some 1), count := 2, landed := True\<rparr>"
      True "''c''" "''3''"
      "end_c_limit_cursor\<lparr>dbIterator := Some (Some 2), count := 3, landed := True\<rparr>" "''c''" 2]
  by (simp add: end_c_cursor_def end_c_limit_cursor_def plain_cursor_def new_Iterator_def abcdef_def
        Read_def Read_move_def Read_entry_def
        GetIterator_def step_def count_entry_def in_range_def
        Valid_def Next_def key_at_def value_at_def Let_def)

section \<open>The loop of one advance\<close>

lemma loop_fault:
  "Read it = Inl f \<Longrightarrow> IteratorNext_loop it result sz = Inl f"
  by (subst IteratorNext_loop.simps) simp

lemma loop_stop:
  "Read it = Inr (False, k, v, it1) \<Longrightarrow> IteratorNext_loop it result sz = Inr (False, result, it1)"
  by (subst IteratorNext_loop.simps) simp

lemma loop_first:
  "Read it = Inr (True, k, v, it1) \<Longrightarrow> \<not> landed it1 \<Longrightarrow>
     IteratorNext_loop it result sz = Inr (True, result @ [(k, v)], it1\<lparr>landed := True\<rparr>)"
  by (subst IteratorNext_loop.simps) simp

lemma loop_full:
  "Read it = Inr (True, k, v, it1) \<Longrightarrow> landed it1 \<Longrightarrow>
     unat (highWaterMark it1) < sz + length k + length v \<Longrightarrow>
     IteratorNext_loop it result sz = Inr (True, result @ [(k, v)], it1)"
  by (subst IteratorNext_loop.simps) simp

lemma loop_more:
  "Read it = Inr (True, k, v, it1) \<Longrightarrow> landed it1 \<Longrightarrow>
     \<not> unat (highWaterMark it1) < sz + length k + length v \<Longrightarrow>
     IteratorNext_loop it result sz
       = IteratorNext_loop it1 (result @ [(k, v)]) (sz + length k + length v)"
  by (subst IteratorNext_loop.simps) simp

lemma loop_limit:
  "IteratorNext_loop it result sz = Inr (g, res, it') \<Longrightarrow> 0 \<le> limit it \<Longrightarrow>
     \<exists>new. res = result @ new \<and> limit it' = limit it
       \<and> count it + int (length new) \<le> count it'
       \<and> (new \<noteq> [] \<longrightarrow> count it + int (length new) \<le> limit it)"
proof (induction it result sz arbitrary: g res it' rule: IteratorNext_loop.induct)
  case (1 it result sz)
  from "1.prems"(1) obtain got k v it1 where r: "Read it = Inr (got, k, v, it1)"
    by (cases "Read it") (auto simp: loop_fault)
  from Read_frame [OF r] obtain p c where
    it1: "it1 = it\<lparr>dbIterator := Some p, count := c, seeking := False\<rparr>"
    and c: "count it \<le> c" "got \<longrightarrow> limit it < 0 \<or> c = count it + 1 \<and> c \<le> limit it"
    by blast
  have lim: "limit it1 = limit it" and cnt: "count it1 = c"
    by (simp_all add: it1)
  consider (stop) "\<not> got" | (first) "got" "\<not> landed it1"
    | (full) "got" "landed it1" "unat (highWaterMark it1) < sz + length k + length v"
    | (more) "got" "landed it1" "\<not> unat (highWaterMark it1) < sz + length k + length v"
    by blast
  then show ?case
  proof cases
    case stop
    with r "1.prems"(1) have "res = result" "it' = it1"
      by (simp_all add: loop_stop)
    with lim cnt c show ?thesis by simp
  next
    case first
    with r "1.prems"(1) have "res = result @ [(k, v)]" "it' = it1\<lparr>landed := True\<rparr>"
      by (simp_all add: loop_first)
    with lim cnt c first "1.prems"(2) show ?thesis by simp
  next
    case full
    with r "1.prems"(1) have "res = result @ [(k, v)]" "it' = it1"
      by (simp_all add: loop_full)
    with lim cnt c full "1.prems"(2) show ?thesis by simp
  next
    case more
    with r "1.prems"(1) have
      rec: "IteratorNext_loop it1 (result @ [(k, v)]) (sz + length k + length v) = Inr (g, res, it')"
      by (simp add: loop_more)
    from more(2) have nn: "\<not> \<not> landed it1" by simp
    from "1.IH" [OF r refl refl refl more(1) refl nn refl more(3) rec] "1.prems"(2) lim
    obtain new1 where n1: "res = (result @ [(k, v)]) @ new1" "limit it' = limit it1"
      "count it1 + int (length new1) \<le> count it'"
      "new1 \<noteq> [] \<longrightarrow> count it1 + int (length new1) \<le> limit it1"
      by auto
    have "res = result @ ((k, v) # new1)" using n1(1) by simp
    moreover have "limit it' = limit it" using n1(2) lim by simp
    moreover have "count it + int (length ((k, v) # new1)) \<le> count it'"
      using n1(3) c more "1.prems"(2) cnt by auto
    moreover have "count it + int (length ((k, v) # new1)) \<le> limit it"
      using n1(4) c more "1.prems"(2) cnt lim by (cases new1) auto
    ultimately show ?thesis by blast
  qed
qed

lemma run_advances_limit:
  "run_advances n it = Inr (rs, it') \<Longrightarrow> 0 \<le> limit it \<Longrightarrow>
     limit it' = limit it \<and> count it + int (length rs) \<le> count it'
     \<and> (rs \<noteq> [] \<longrightarrow> count it + int (length rs) \<le> limit it)"
proof (induction n arbitrary: it rs it')
  case 0
  then show ?case by simp
next
  case (Suc n)
  from Suc.prems(1) obtain g res it1 rs1 where
    a: "IteratorNext it [] = Inr (g, res, it1)" and b: "run_advances n it1 = Inr (rs1, it')"
    and rs: "rs = res @ rs1"
    by (auto split: sum.splits)
  from loop_limit [OF a [unfolded IteratorNext_def] Suc.prems(2)]
  have l1: "limit it1 = limit it" "count it + int (length res) \<le> count it1"
    "res \<noteq> [] \<longrightarrow> count it + int (length res) \<le> limit it"
    by auto
  from Suc.IH [OF b] l1(1) Suc.prems(2)
  have l2: "limit it' = limit it" "count it1 + int (length rs1) \<le> count it'"
    "rs1 \<noteq> [] \<longrightarrow> count it1 + int (length rs1) \<le> limit it"
    by auto
  show ?case
    using l1 l2 rs by (cases rs1) auto
qed

section \<open>The limit\<close>

lemma limit_example:
  "iterator abcdef limit_options new_Database
     = Inr (limit_cursor, new_Database\<lparr>currentIteratorId := 1, iterators := {0}\<rparr>)"
  "IteratorNext limit_cursor []
     = Inr (True, [(''b'', ''2'')],
            limit_cursor\<lparr>dbIterator := Some (Some 1), count := 1, landed := True\<rparr>)"
  "IteratorNext (limit_cursor\<lparr>dbIterator := Some (Some 1), count := 1, landed := True\<rparr>) []
     = Inr (False, [(''c'', ''3'')],
            limit_cursor\<lparr>dbIterator := Some (Some 3), count := 3, landed := True\<rparr>)"
  "IteratorNext (limit_cursor\<lparr>dbIterator := Some (Some 3), count := 3, landed := True\<rparr>) []
     = Inr (False, [],
            limit_cursor\<lparr>dbIterator := Some (Some 4), count := 4, landed := True\<rparr>)"
  by (simp_all add: scan_defs option_defs limit_options_def limit_cursor_def)

lemma limit_example_run:
  "run_advances 3 limit_cursor
     = Inr ([(''b'', ''2''), (''c'', ''3'')],
            limit_cursor\<lparr>dbIterator := Some (Some 4), count := 4, landed := True\<rparr>)"
proof -
  have "run_advances 3 limit_cursor = run_advances (Suc (Suc (Suc 0))) limit_cursor"
    by (simp only: numeral_3_eq_3)
  also have "\<dots> = Inr ([(''b'', ''2''), (''c'', ''3'')],
            limit_cursor\<lparr>dbIterator := Some (Some 4), count := 4, landed := True\<rparr>)"
    by (simp only: run_advances.simps limit_example sum.case prod.case append.simps)
  finally show ?thesis .
qed

text \<open>
  C6: with a limit that is not negative, a cursor that starts with its counter at zero
  hands out at most \<^verbatim>\<open>limit\<close> entries over any number of advance calls; a read that has
  counted more than \<^verbatim>\<open>limit\<close> entries yields nothing; and the forward scan over the keys
  a to f with gte = b, lt = e and limit 2 hands out exactly b and c.
\<close>

theorem limit_bounds_emitted:
  "(0 \<le> limit it \<and> count it = 0 \<and> run_advances n it = Inr (rs, it') \<longrightarrow>
      int (length rs) \<le> limit it)
   \<and> (0 \<le> limit it \<and> Read it = Inr (got, k, v, it1) \<and> limit it < count it1 \<longrightarrow> \<not> got)
   \<and> iterator abcdef limit_options new_Database
       = Inr (limit_cursor, new_Database\<lparr>currentIteratorId := 1, iterators := {0}\<rparr>)
   \<and> run_advances 3 limit_cursor
       = Inr ([(''b'', ''2''), (''c'', ''3'')],
              limit_cursor\<lparr>dbIterator := Some (Some 4), count := 4, landed := True\<rparr>)"
proof (intro conjI impI)
  assume a: "0 \<le> limit it \<and> count it = 0 \<and> run_advances n it = Inr (rs, it')"
  then have "rs \<noteq> [] \<longrightarrow> count it + int (length rs) \<le> limit it"
    using run_advances_limit [of n it rs it'] by simp
  with a show "int (length rs) \<le> limit it" by (cases rs) auto
next
  assume a: "0 \<le> limit it \<and> Read it = Inr (got, k, v, it1) \<and> limit it < count it1"
  then have "Read it = Inr (got, k, v, it1)" by simp
  from Read_got [OF this] a show "\<not> got" by auto
next
  show "iterator abcdef limit_options new_Database
       = Inr (limit_cursor, new_Database\<lparr>currentIteratorId := 1, iterators := {0}\<rparr>)"
    by (rule limit_example(1))
next
  show "run_advances 3 limit_cursor
       = Inr ([(''b'', ''2''), (''c'', ''3'')],
              limit_cursor\<lparr>dbIterator := Some (Some 4), count := 4, landed := True\<rparr>)"
    by (rule limit_example_run)
qed

theorem limit_bounds_emitted_witness:
  "0 \<le> limit limit_cursor \<and> count limit_cursor = 0
   \<and> run_advances 3 limit_cursor
       = Inr ([(''b'', ''2''), (''c'', ''3'')],
              limit_cursor\<lparr>dbIterator := Some (Some 4), count := 4, landed := True\<rparr>)
   \<and> int (length [(''b'', ''2''), (''c'', ''3'')]) \<le> limit limit_cursor"
  using limit_bounds_emitted [of limit_cursor 3 "[(''b'', ''2''), (''c'', ''3'')]"
      "limit_cursor\<lparr>dbIterator := Some (Some 4), count := 4, landed := True\<rparr>"]
  by (simp add: limit_cursor_def plain_cursor_def new_Iterator_def)

section \<open>Batches\<close>

lemma bytes_simps [simp]:
  "bytes [] = 0"
  "bytes (kv # xs) = length (fst kv) + length (snd kv) + bytes xs"
  "bytes (xs @ ys) = bytes xs + bytes ys"
  by (simp_all add: bytes_def)














section \<open>An end request during an advance\<close>

text \<open>
  C5 says the end worker stored during an advance is queued when that advance
  completes. With the cursor on its last entry and the engine iterator reporting a
  corruption: the advance is requested, the end request stores its worker, the advance
  executes and fails, and its completion calls back with the error and nothing else;
  the end worker is still stored, \<^verbatim>\<open>nexting_\<close> still set and the queue empty.
\<close>

theorem end_lost_after_failed_advance:
  "iterator_next 1 (last_cursor, []) = (last_cursor\<lparr>nexting := True\<rparr>, [NextWork 0 1])
   \<and> iterator_end 2 (last_cursor\<lparr>nexting := True\<rparr>, []) = (end_stored_cursor, [])
   \<and> NextWorker_DoExecute ToString_sample corruption end_stored_cursor new_NextWorker
       = Inr (end_stored_cursor\<lparr>dbIterator := Some None\<rparr>, failed_worker)
   \<and> NextWorker_Complete failed_worker (end_stored_cursor\<lparr>dbIterator := Some None\<rparr>, [])
       = Inr ([JSError None ''Corruption: bad block''],
              (end_stored_cursor\<lparr>dbIterator := Some None\<rparr>, []))
   \<and> nexting (end_stored_cursor\<lparr>dbIterator := Some None\<rparr>)
   \<and> endWorker (end_stored_cursor\<lparr>dbIterator := Some None\<rparr>) = Some (EndWork 0 2)"
  by (simp add: iterator_next_def iterator_end_def NextWorker_DoExecute_def NextWorker_Complete_def
        DoComplete_def SetStatus_def SetErrorMessage_def c_str_def ok_def corruption_def
        ToString_sample_def last_cursor_def end_stored_cursor_def failed_worker_def new_NextWorker_def Status_OK_def
        scan_defs)

text \<open>
  What does hold of an end request on a cursor that is not ended: it stores its worker
  while an advance is in flight and queues it at once otherwise.
\<close>

lemma iterator_end_during_advance:
  "\<not> ended it \<Longrightarrow> nexting it \<Longrightarrow>
     iterator_end cb (it, q) = (it\<lparr>ended := True, endWorker := Some (EndWork (id_it it) cb)\<rparr>, q)"
  by (simp add: iterator_end_def)

lemma iterator_end_when_idle:
  "\<not> ended it \<Longrightarrow> \<not> nexting it \<Longrightarrow>
     iterator_end cb (it, q) = (it\<lparr>ended := True\<rparr>, q @ [EndWork (id_it it) cb])"
  by (simp add: iterator_end_def)

text \<open>
  The path the failed completion misses: a completion with an ok status runs
  \<^verbatim>\<open>CheckEndCallback\<close>, which queues the stored end worker.
\<close>

lemma end_queued_after_ok_advance:
  "ok (status w) \<Longrightarrow> endWorker (fst iq) = Some e \<Longrightarrow>
     \<exists>argv it'. NextWorker_Complete w iq = Inr (argv, (it', snd iq @ [e]))
       \<and> \<not> nexting it' \<and> endWorker it' = None"
  by (simp add: NextWorker_Complete_def DoComplete_def NextWorker_HandleOKCallback_def
        CheckEndCallback_def ReleaseTarget_def Let_def)

section \<open>Bounds that cannot be used\<close>

lemma bound_property_unusable:
  "obj key = Some v \<Longrightarrow> \<not> (IsString v \<or> IsBuffer v) \<or> StringOrBufferLength v = 0 \<Longrightarrow>
     bound_property obj key = None"
  by (auto simp: bound_property_def HasProperty_def GetProperty_def)

lemma absent_property:
  "bound_property (obj(key := None)) key = None"
  "k \<noteq> key \<Longrightarrow> bound_property (obj(key := None)) k = bound_property obj k"
  "k \<noteq> key \<Longrightarrow> BooleanProperty (obj(key := None)) k b = BooleanProperty obj k b"
  "k \<noteq> key \<Longrightarrow> Int32Property (obj(key := None)) k n = Int32Property obj k n"
  "k \<noteq> key \<Longrightarrow> Uint32Property (obj(key := None)) k u = Uint32Property obj k u"
  by (simp_all add: bound_property_def BooleanProperty_def Int32Property_def Uint32Property_def
        HasProperty_def GetProperty_def)

text \<open>
  C9: a value given for \<^verbatim>\<open>start\<close>, \<^verbatim>\<open>end\<close>, \<^verbatim>\<open>lt\<close>, \<^verbatim>\<open>lte\<close>, \<^verbatim>\<open>gt\<close> or
  \<^verbatim>\<open>gte\<close> that is neither a string nor a buffer, or that has length zero, makes the
  same iterator and leaves the same database as the options without that property; it
  makes no bound.
\<close>

theorem unusable_bound_is_absent:
  assumes "key \<in> {''start'', ''end'', ''lt'', ''lte'', ''gt'', ''gte''}"
    and "options key = Some v"
    and "\<not> (IsString v \<or> IsBuffer v) \<or> StringOrBufferLength v = 0"
  shows "iterator snap options database = iterator snap (options(key := None)) database
         \<and> bound_property options key = None"
proof -
  have u: "bound_property options key = None"
    using assms(2,3) by (rule bound_property_unusable [where obj = options and key = key])
  from assms(1) consider "key = ''start''" | "key = ''end''" | "key = ''lt''"
    | "key = ''lte''" | "key = ''gt''" | "key = ''gte''"
    by auto
  then have "iterator snap options database = iterator snap (options(key := None)) database"
  proof cases
    case 1 with u show ?thesis by (simp add: iterator_def absent_property)
  next
    case 2 with u show ?thesis by (simp add: iterator_def absent_property)
  next
    case 3 with u show ?thesis by (simp add: iterator_def absent_property)
  next
    case 4 with u show ?thesis by (simp add: iterator_def absent_property)
  next
    case 5 with u show ?thesis by (simp add: iterator_def absent_property)
  next
    case 6 with u show ?thesis by (simp add: iterator_def absent_property)
  qed
  with u show ?thesis by simp
qed

theorem unusable_bound_is_absent_witness:
  "''lt'' \<in> {''start'', ''end'', ''lt'', ''lte'', ''gt'', ''gte''}
   \<and> unusable_options ''lt'' = Some (JSNumber 5)
   \<and> \<not> (IsString (JSNumber 5) \<or> IsBuffer (JSNumber 5))
   \<and> iterator abcdef unusable_options new_Database
       = iterator abcdef (unusable_options(''lt'' := None)) new_Database
   \<and> iterator abcdef unusable_options new_Database
       = Inr (plain_cursor abcdef, new_Database\<lparr>currentIteratorId := 1, iterators := {0}\<rparr>)"
  using unusable_bound_is_absent [of "''lt''" unusable_options "JSNumber 5" abcdef new_Database]
  by (simp add: unusable_options_def option_defs plain_cursor_def IsString_def IsBuffer_def)

section \<open>The array of a completed advance\<close>

lemma element_index_eq:
  assumes "idx < n" and "2 * n < 2 ^ 32" and "k = 1 \<or> k = 2"
  shows "element_index (word_of_nat n * 2) (word_of_nat idx) (word_of_nat k) = 2 * n - 2 * idx - k"
proof -
  from assms(1,3) have m: "2 * n = (2 * n - 2 * idx - k) + k + idx * 2" by auto
  have "(word_of_nat n * 2 :: 64 word) = word_of_nat (2 * n)" by simp
  also have "\<dots> = word_of_nat (2 * n - 2 * idx - k) + word_of_nat k + word_of_nat idx * 2"
    by (subst m) (simp only: of_nat_add of_nat_mult of_nat_numeral)
  finally have "(word_of_nat n * 2 - word_of_nat idx * 2 - word_of_nat k :: 64 word)
      = word_of_nat (2 * n - 2 * idx - k)"
    by simp
  moreover have "2 * n - 2 * idx - k < 2 ^ 32" using assms(2) by simp
  ultimately show ?thesis
    by (simp add: element_index_def unsigned_of_nat take_bit_nat_eq_self)
qed

lemma fill_array_step:
  assumes "idx < length res" and "2 * length res < 2 ^ 32" and "length arr = 2 * length res"
  shows "fill_array it res (word_of_nat (length res) * 2) idx arr
       = fill_array it res (word_of_nat (length res) * 2) (Suc idx)
           (arr[2 * length res - 2 * idx - 1 := returnKey it (res ! idx),
                2 * length res - 2 * idx - 2 := returnValue it (res ! idx)])"
proof -
  have "element_index (word_of_nat (length res) * 2) (word_of_nat idx) 1
          = 2 * length res - 2 * idx - 1"
    "element_index (word_of_nat (length res) * 2) (word_of_nat idx) 2
          = 2 * length res - 2 * idx - 2"
    using element_index_eq [OF assms(1,2), of 1] element_index_eq [OF assms(1,2), of 2]
    by simp_all
  moreover have "2 * length res - 2 * idx - 1 < length arr" "2 * length res - 2 * idx - 2 < length arr"
    using assms(1,3) by simp_all
  ultimately show ?thesis
    using assms(1) by (subst fill_array.simps) (simp add: napi_set_element_def Let_def)
qed

lemma fill_array_layout:
  assumes "2 * length res < 2 ^ 32" and "length arr = 2 * length res" and "idx \<le> length res"
  shows "length (fill_array it res (word_of_nat (length res) * 2) idx arr) = 2 * length res
       \<and> (\<forall>i. idx \<le> i \<and> i < length res \<longrightarrow>
             fill_array it res (word_of_nat (length res) * 2) idx arr ! (2 * length res - 2 * i - 1)
               = returnKey it (res ! i)
           \<and> fill_array it res (word_of_nat (length res) * 2) idx arr ! (2 * length res - 2 * i - 2)
               = returnValue it (res ! i))
       \<and> (\<forall>p. 2 * length res - 2 * idx \<le> p \<and> p < 2 * length res \<longrightarrow>
             fill_array it res (word_of_nat (length res) * 2) idx arr ! p = arr ! p)"
  using assms(2,3)
proof (induction "length res - idx" arbitrary: idx arr)
  case 0
  then have "idx = length res" by simp
  then show ?case
    by (subst (1 2 3 4) fill_array.simps) (auto simp: "0.prems")
next
  case (Suc d)
  let ?n = "length res"
  let ?A = "word_of_nat ?n * 2 :: 64 word"
  let ?a2 = "arr[2 * ?n - 2 * idx - 1 := returnKey it (res ! idx),
                 2 * ?n - 2 * idx - 2 := returnValue it (res ! idx)]"
  from Suc.hyps(2) have lt: "idx < ?n" by simp
  note st = fill_array_step [OF lt assms(1) Suc.prems(1), of it]
  have "d = ?n - Suc idx" using Suc.hyps(2) by simp
  moreover have "length ?a2 = 2 * ?n" using Suc.prems(1) by simp
  moreover have "Suc idx \<le> ?n" using lt by simp
  ultimately have IH:
    "length (fill_array it res ?A (Suc idx) ?a2) = 2 * ?n"
    "\<And>i. Suc idx \<le> i \<Longrightarrow> i < ?n \<Longrightarrow>
        fill_array it res ?A (Suc idx) ?a2 ! (2 * ?n - 2 * i - 1) = returnKey it (res ! i)
        \<and> fill_array it res ?A (Suc idx) ?a2 ! (2 * ?n - 2 * i - 2) = returnValue it (res ! i)"
    "\<And>p. 2 * ?n - 2 * Suc idx \<le> p \<Longrightarrow> p < 2 * ?n \<Longrightarrow>
        fill_array it res ?A (Suc idx) ?a2 ! p = ?a2 ! p"
    using Suc.hyps(1) [of "Suc idx" ?a2] by simp_all
  have here: "fill_array it res ?A (Suc idx) ?a2 ! (2 * ?n - 2 * idx - 1) = returnKey it (res ! idx)"
    "fill_array it res ?A (Suc idx) ?a2 ! (2 * ?n - 2 * idx - 2) = returnValue it (res ! idx)"
    using lt Suc.prems(1) IH(3) [of "2 * ?n - 2 * idx - 1"] IH(3) [of "2 * ?n - 2 * idx - 2"]
    by simp_all
  have keys_values: "fill_array it res ?A (Suc idx) ?a2 ! (2 * ?n - 2 * i - 1) = returnKey it (res ! i)
        \<and> fill_array it res ?A (Suc idx) ?a2 ! (2 * ?n - 2 * i - 2) = returnValue it (res ! i)"
    if "idx \<le> i" "i < ?n" for i
  proof (cases "i = idx")
    case True
    with here show ?thesis by simp
  next
    case False
    with that IH(2) [of i] show ?thesis by simp
  qed
  have kept: "fill_array it res ?A (Suc idx) ?a2 ! p = arr ! p"
    if "2 * ?n - 2 * idx \<le> p" "p < 2 * ?n" for p
    using that lt IH(3) [of p] by simp
  show ?case
    unfolding st using IH(1) keys_values kept by blast
qed

lemma result_array_layout:
  assumes "length res < 2 ^ 31"
  shows "length (result_array it res) = 2 * length res"
    and "i < length res \<Longrightarrow>
           result_array it res ! (2 * length res - 2 * i - 1) = returnKey it (res ! i)
           \<and> result_array it res ! (2 * length res - 2 * i - 2) = returnValue it (res ! i)"
proof -
  from assms have b: "2 * length res < 2 ^ 32" by simp
  then have u: "unat (word_of_nat (length res) * 2 :: 64 word) = 2 * length res"
  proof -
    have "(word_of_nat (length res) * 2 :: 64 word) = word_of_nat (2 * length res)" by simp
    moreover from b have "2 * length res < 2 ^ 64" by simp
    ultimately show ?thesis
      by (simp add: unsigned_of_nat take_bit_nat_eq_self del: of_nat_mult)
  qed
  note l = fill_array_layout [OF b, of "replicate (2 * length res) JSUndefined" 0 it]
  from l show "length (result_array it res) = 2 * length res"
    by (simp add: result_array_def u Let_def)
  from l show "i < length res \<Longrightarrow>
           result_array it res ! (2 * length res - 2 * i - 1) = returnKey it (res ! i)
           \<and> result_array it res ! (2 * length res - 2 * i - 2) = returnValue it (res ! i)"
    by (simp add: result_array_def u Let_def)
qed

text \<open>
  C10: a completion of an advance with an ok status and \<open>n\<close> pairs (fewer than
  \<open>2^31\<close>) calls back with an array of length \<open>2n\<close> in which pair \<open>i\<close>, counted
  from 0, has its key at index \<open>2n - 2i - 1\<close> and its value at \<open>2n - 2i - 2\<close>; the key of the
  first pair is the last element.
\<close>

theorem advance_result_array:
  assumes "ok (status w)" and "length (result_vec w) < 2 ^ 31"
  shows "\<exists>arr. NextWorker_Complete w iq
             = Inr ([JSNull, JSArray arr, JSBoolean (\<not> ok_flag w)], CheckEndCallback iq)
           \<and> length arr = 2 * length (result_vec w)
           \<and> (\<forall>i < length (result_vec w).
                 arr ! (2 * length (result_vec w) - 2 * i - 1) = returnKey (fst iq) (result_vec w ! i)
               \<and> arr ! (2 * length (result_vec w) - 2 * i - 2) = returnValue (fst iq) (result_vec w ! i))
           \<and> (result_vec w \<noteq> [] \<longrightarrow> last arr = returnKey (fst iq) (result_vec w ! 0))"
proof -
  let ?arr = "result_array (fst iq) (result_vec w)"
  note l = result_array_layout [OF assms(2), where it = "fst iq"]
  have "NextWorker_Complete w iq
             = Inr ([JSNull, JSArray ?arr, JSBoolean (\<not> ok_flag w)], CheckEndCallback iq)"
    using assms(1)
    by (simp add: NextWorker_Complete_def DoComplete_def NextWorker_HandleOKCallback_def Let_def)
  moreover have "result_vec w \<noteq> [] \<longrightarrow> last ?arr = returnKey (fst iq) (result_vec w ! 0)"
  proof
    assume ne: "result_vec w \<noteq> []"
    then have "?arr \<noteq> []" using l(1) by auto
    then have "last ?arr = ?arr ! (2 * length (result_vec w) - 2 * 0 - 1)"
      using l(1) by (simp add: last_conv_nth)
    with l(2) [of 0] ne show "last ?arr = returnKey (fst iq) (result_vec w ! 0)"
      by simp
  qed
  ultimately show ?thesis
    using l by blast
qed

lemma four_holes:
  "replicate 4 x = [x, x, x, x]"
  "[a, b, c, d][3 := y] = [a, b, c, y]"
  "[a, b, c, d][2 := y] = [a, b, y, d]"
  by (simp_all add: eval_nat_numeral)

lemma two_rows_array:
  "result_array it [(''a'', ''1''), (''b'', ''2'')]
     = [returnValue it (''b'', ''2''), returnKey it (''b'', ''2''),
        returnValue it (''a'', ''1''), returnKey it (''a'', ''1'')]"
  by (simp add: result_array_def fill_array.simps element_index_def napi_set_element_def
        Let_def four_holes)

theorem advance_result_array_witness:
  "ok (status two_rows_worker) \<and> length (result_vec two_rows_worker) < 2 ^ 31
   \<and> NextWorker_Complete two_rows_worker (landed_cursor\<lparr>nexting := True\<rparr>, [])
       = Inr ([JSNull,
               JSArray [JSBuffer ''2'', JSBuffer ''b'', JSBuffer ''1'', JSBuffer ''a''],
               JSBoolean False],
              (landed_cursor, []))"
  using advance_result_array [of two_rows_worker "(landed_cursor\<lparr>nexting := True\<rparr>, [])"]
  by (simp add: two_rows_worker_def new_NextWorker_def Status_OK_def ok_def
        NextWorker_Complete_def DoComplete_def NextWorker_HandleOKCallback_def
        CheckEndCallback_def ReleaseTarget_def two_rows_array returnKey_def returnValue_def
        landed_cursor_def plain_cursor_def new_Iterator_def)

end
